theory Spec2Isabelle
  imports Main
begin

section \<open>Python strings\<close>

text \<open>
  A Python \<open>str\<close> is a sequence of Unicode code points. It is modelled as a list of
  natural numbers, one per code point, so that \<open>length\<close> counts what Python's \<open>len\<close>
  counts and the whitespace beyond Latin-1 is there. A literal of the source is written
  \<open>lit ''...''\<close>.
\<close>

type_synonym pystr = "nat list"

definition lit :: "string \<Rightarrow> pystr" where
  "lit s = map of_char s"

text \<open>\<open>s.startswith(p)\<close>.\<close>

fun startswith :: "'a list \<Rightarrow> 'a list \<Rightarrow> bool" where
  "startswith s [] = True"
| "startswith [] (p # ps) = False"
| "startswith (c # cs) (p # ps) = (c = p \<and> startswith cs ps)"

text \<open>\<open>sub in s\<close>: some suffix of \<open>s\<close> starts with \<open>sub\<close>.\<close>

fun contains :: "'a list \<Rightarrow> 'a list \<Rightarrow> bool" where
  "contains [] sub = (sub = [])"
| "contains (c # cs) sub = (startswith (c # cs) sub \<or> contains cs sub)"

text \<open>
  \<open>s.replace(old, new)\<close>: the string is scanned from the left; where \<open>old\<close> starts, \<open>new\<close>
  is written and the scan goes on behind the occurrence, so occurrences are the leftmost
  ones and do not overlap. With an empty \<open>old\<close> Python writes \<open>new\<close> before every
  character and at the end.
\<close>

function replace :: "'a list \<Rightarrow> 'a list \<Rightarrow> 'a list \<Rightarrow> 'a list" where
  "replace [] old new = (if old = [] then new else [])"
| "replace (c # cs) old new =
     (if old = [] then new @ c # replace cs old new
      else if startswith (c # cs) old then new @ replace (drop (length old) (c # cs)) old new
      else c # replace cs old new)"
  by pat_completeness auto
termination
  by (relation "measure (\<lambda>(s, old, new). length s)") (auto simp: neq_Nil_conv)

text \<open>\<open>s.endswith(p)\<close>.\<close>

definition endswith :: "'a list \<Rightarrow> 'a list \<Rightarrow> bool" where
  "endswith s p = startswith (rev s) (rev p)"

section \<open>The URL normalizer\<close>

text \<open>
  \<^verbatim>\<open>
  def fix_google_drive_url(self, url: str) -> str:
      if "drive.google.com" in url:
          return url.replace("/file/d/", "/uc?id=").replace("/view", "")
      return url
  \<close>
\<close>

definition fix_google_drive_url :: "pystr \<Rightarrow> pystr" where
  "fix_google_drive_url url =
     (if contains url (lit ''drive.google.com'')
      then replace (replace url (lit ''/file/d/'') (lit ''/uc?id='')) (lit ''/view'') []
      else url)"

text \<open>
  What \<open>replace\<close> is meant to compute, stated without the scan: \<open>s\<close> contains \<open>sub\<close> when
  it can be cut around a copy of it, and \<open>t\<close> is \<open>s\<close> with every occurrence of \<open>old\<close>
  replaced when either \<open>old\<close> does not occur and \<open>t\<close> is \<open>s\<close>, or \<open>s\<close> is cut at the first
  occurrence (no copy starts before it), \<open>new\<close> stands in its place, and the rest is
  treated the same way.
\<close>

definition occurs :: "'a list \<Rightarrow> 'a list \<Rightarrow> bool" where
  "occurs s sub \<longleftrightarrow> (\<exists>u v. s = u @ sub @ v)"

inductive replaced :: "'a list \<Rightarrow> 'a list \<Rightarrow> 'a list \<Rightarrow> 'a list \<Rightarrow> bool"
  for old new :: "'a list" where
  absent: "\<not> occurs s old \<Longrightarrow> replaced old new s s"
| leftmost: "\<not> occurs (u @ butlast old) old \<Longrightarrow> replaced old new v t
     \<Longrightarrow> replaced old new (u @ old @ v) (u @ new @ t)"



section \<open>Reading the links file\<close>

text \<open>
  \<open>str.strip()\<close> removes the characters for which \<open>str.isspace\<close> holds from both ends:
  U+0009..U+000D, U+001C..U+0020, U+0085, U+00A0, U+1680, U+2000..U+200A, U+2028, U+2029,
  U+202F, U+205F and U+3000.
\<close>

definition isspace :: "nat \<Rightarrow> bool" where
  "isspace c \<longleftrightarrow>
     (9 \<le> c \<and> c \<le> 13) \<or> (28 \<le> c \<and> c \<le> 32) \<or> c = 133 \<or> c = 160 \<or> c = 5760
     \<or> (8192 \<le> c \<and> c \<le> 8202) \<or> c = 8232 \<or> c = 8233 \<or> c = 8239 \<or> c = 8287 \<or> c = 12288"

definition strip :: "pystr \<Rightarrow> pystr" where
  "strip s = rev (dropWhile isspace (rev (dropWhile isspace s)))"

text \<open>
  The file is opened in text mode with the default \<open>newline=None\<close>: on reading, \<open>\r\n\<close>
  and a lone \<open>\r\<close> become \<open>\n\<close>.
\<close>

fun universal_newlines :: "pystr \<Rightarrow> pystr" where
  "universal_newlines [] = []"
| "universal_newlines [c] = (if c = 13 then [10] else [c])"
| "universal_newlines (c # d # ds) =
     (if c = 13 \<and> d = 10 then 10 # universal_newlines ds
      else if c = 13 then 10 # universal_newlines (d # ds)
      else c # universal_newlines (d # ds))"

text \<open>\<open>file.readlines()\<close>: the text is cut behind every \<open>\n\<close>, which stays on its line.\<close>

fun readlines :: "pystr \<Rightarrow> pystr list" where
  "readlines [] = []"
| "readlines (c # cs) =
     (if c = 10 then [c] # readlines cs
      else (case readlines cs of [] \<Rightarrow> [[c]] | l # ls \<Rightarrow> (c # l) # ls))"

text \<open>
  \<^verbatim>\<open>
  file_lines = [line.strip() for line in file.readlines() if line.strip()]
  \<close>
\<close>

definition file_lines_of :: "pystr \<Rightarrow> pystr list" where
  "file_lines_of text =
     map strip (filter (\<lambda>line. strip line \<noteq> []) (readlines (universal_newlines text)))"

section \<open>The world of the batch downloader\<close>

text \<open>
  What the worker does to its surroundings is recorded as a trace of events, in order.
  Paths in events are the resolved ones. A log event holds the level as the panel shows
  it and the message.
\<close>

datatype event =
    Chdir pystr
  | IsFile pystr
  | Mkdir pystr
  | ReadFile pystr
  | Download pystr
  | Log pystr pystr

record world =
  cwd :: pystr
  events :: "event list"

text \<open>
  The outcome of opening and reading the links file: \<open>open\<close> raises an \<open>OSError\<close>
  (\<open>IOError\<close> is the same class), decoding raises a \<open>UnicodeDecodeError\<close>, or the decoded
  text is there. The argument of an error is its text, \<open>str(e)\<close>.
\<close>

datatype read_outcome = ReadOSError pystr | ReadUnicodeDecodeError pystr | ReadText pystr

text \<open>
  The outcome of \<open>gdown.download\<close>, by the \<open>except\<close> clause that takes it:
  \<open>MissingSchema\<close> (a subclass of \<open>RequestException\<close>, caught first), any other
  \<open>RequestException\<close>, any other \<open>Exception\<close>, or a normal return.
\<close>

datatype download_outcome =
    Completed
  | MissingSchema pystr
  | RequestException pystr
  | OtherException pystr

text \<open>
  The surroundings, as far as the worker observes them. \<open>isabs\<close> and \<open>join\<close> are the
  platform's \<open>os.path.isabs\<close> and \<open>os.path.join\<close>; the results of the system calls are
  given per resolved path, \<open>None\<close> for success and \<open>Some text\<close> for an \<open>OSError\<close> with
  that text; the result of a download is given per position in the list and URL.
\<close>

record env =
  frozen :: bool
  meipass :: pystr
  script_dir :: pystr
  isabs :: "pystr \<Rightarrow> bool"
  join :: "pystr \<Rightarrow> pystr \<Rightarrow> pystr"
  chdir_result :: "pystr \<Rightarrow> pystr option"
  is_file_result :: "pystr \<Rightarrow> bool"
  mkdir_result :: "pystr \<Rightarrow> pystr option"
  read_result :: "pystr \<Rightarrow> read_outcome"
  download_result :: "nat \<Rightarrow> pystr \<Rightarrow> download_outcome"

text \<open>A relative path is read against the current working directory.\<close>

definition resolve :: "env \<Rightarrow> world \<Rightarrow> pystr \<Rightarrow> pystr" where
  "resolve e w path = (if isabs e path then path else join e (cwd w) path)"

definition emit :: "event \<Rightarrow> world \<Rightarrow> world" where
  "emit ev w = w\<lparr>events := events w @ [ev]\<rparr>"

text \<open>\<open>os.chdir(path)\<close>: on success the working directory is the resolved path.\<close>

definition os_chdir :: "env \<Rightarrow> pystr \<Rightarrow> world \<Rightarrow> pystr option \<times> world" where
  "os_chdir e path w =
     (let p = resolve e w path; w' = emit (Chdir p) w
      in (case chdir_result e p of
            Some err \<Rightarrow> (Some err, w')
          | None \<Rightarrow> (None, w'\<lparr>cwd := p\<rparr>)))"

text \<open>\<open>Path(path).is_file()\<close>.\<close>

definition is_file :: "env \<Rightarrow> pystr \<Rightarrow> world \<Rightarrow> bool \<times> world" where
  "is_file e path w = (let p = resolve e w path in (is_file_result e p, emit (IsFile p) w))"

text \<open>\<open>Path(path).mkdir(parents=True, exist_ok=True)\<close>.\<close>

definition mkdir :: "env \<Rightarrow> pystr \<Rightarrow> world \<Rightarrow> pystr option \<times> world" where
  "mkdir e path w = (let p = resolve e w path in (mkdir_result e p, emit (Mkdir p) w))"

text \<open>\<open>open(path, 'r', encoding='utf-8')\<close> and \<open>readlines()\<close>, up to the decoded text.\<close>

definition open_read :: "env \<Rightarrow> pystr \<Rightarrow> world \<Rightarrow> read_outcome \<times> world" where
  "open_read e path w = (let p = resolve e w path in (read_result e p, emit (ReadFile p) w))"

text \<open>\<open>download(url=download_url, quiet=False, fuzzy=True)\<close>, the \<open>i\<close>-th of the run.\<close>

definition download :: "env \<Rightarrow> nat \<Rightarrow> pystr \<Rightarrow> world \<Rightarrow> download_outcome \<times> world" where
  "download e i url w = (download_result e i url, emit (Download url) w)"

section \<open>The log sink\<close>

text \<open>
  \<^verbatim>\<open>
  def log_message(self, message, level="INFO"):
      def update_log():
          levels = {"INFO": "INFO", "ERROR": "ERROR", "WARNING": "WARNING"}
          formatted_message = f"{levels.get(level, 'INFO')} - {message}\n"
          self.log_text.insert("end", formatted_message)
          self.log_text.see("end")
      self.root.after(0, update_log)
  \<close>
  The callbacks run on the UI thread in the order they were posted, so the panel holds
  the entries in the order of the calls.
\<close>

definition levels :: "(pystr \<times> pystr) list" where
  "levels = [(lit ''INFO'', lit ''INFO''), (lit ''ERROR'', lit ''ERROR''),
             (lit ''WARNING'', lit ''WARNING'')]"

definition levels_get :: "pystr \<Rightarrow> pystr" where
  "levels_get level = (case map_of levels level of Some l \<Rightarrow> l | None \<Rightarrow> lit ''INFO'')"

definition formatted_message :: "pystr \<Rightarrow> pystr \<Rightarrow> pystr" where
  "formatted_message level message = levels_get level @ lit '' - '' @ message @ [10]"

definition log_message :: "pystr \<Rightarrow> pystr \<Rightarrow> world \<Rightarrow> world" where
  "log_message message level w = emit (Log (levels_get level) message) w"

section \<open>The batch downloader\<close>

text \<open>\<open>str(n)\<close> for the counters of the progress message.\<close>

fun str_nat :: "nat \<Rightarrow> pystr" where
  "str_nat n = (if n < 10 then [48 + n] else str_nat (n div 10) @ [48 + n mod 10])"

declare str_nat.simps [simp del]

definition application_path :: "env \<Rightarrow> pystr" where
  "application_path e = (if frozen e then meipass e else script_dir e)"

text \<open>
  The body of the loop, for the item at position \<open>i\<close> of \<open>file_lines_count\<close>:
  \<^verbatim>\<open>
  download_url = self.fix_google_drive_url(url_raw.strip())
  self.log_message(f"Downloading [{i}/{file_lines_count}]: {download_url}")
  try:
      download(url=download_url, quiet=False, fuzzy=True)
      self.log_message("Download completed successfully")
  except MissingSchema:
      self.log_message(f"Invalid URL format: '{download_url}'", "ERROR")
  except RequestException as e:
      self.log_message(f"Network error while downloading '{download_url}': {str(e)}", "ERROR")
  except Exception as e:
      self.log_message(f"Unexpected error while downloading '{download_url}': {str(e)}", "ERROR")
  \<close>
\<close>

definition outcome_message :: "pystr \<Rightarrow> download_outcome \<Rightarrow> world \<Rightarrow> world" where
  "outcome_message download_url r w =
     (case r of
        Completed \<Rightarrow> log_message (lit ''Download completed successfully'') (lit ''INFO'') w
      | MissingSchema err \<Rightarrow>
          log_message (lit ''Invalid URL format: '' @ [39] @ download_url @ [39]) (lit ''ERROR'') w
      | RequestException err \<Rightarrow>
          log_message (lit ''Network error while downloading '' @ [39] @ download_url @ [39]
                       @ lit '': '' @ err) (lit ''ERROR'') w
      | OtherException err \<Rightarrow>
          log_message (lit ''Unexpected error while downloading '' @ [39] @ download_url @ [39]
                       @ lit '': '' @ err) (lit ''ERROR'') w)"

definition download_item :: "env \<Rightarrow> nat \<Rightarrow> nat \<Rightarrow> pystr \<Rightarrow> world \<Rightarrow> world" where
  "download_item e file_lines_count i url_raw w =
     (let download_url = fix_google_drive_url (strip url_raw);
          w1 = log_message (lit ''Downloading ['' @ str_nat i @ lit ''/''
                            @ str_nat file_lines_count @ lit '']: '' @ download_url)
                 (lit ''INFO'') w;
          (r, w2) = download e i download_url w1
      in outcome_message download_url r w2)"

text \<open>\<open>for i, url_raw in enumerate(file_lines, start=1)\<close>.\<close>

fun download_loop :: "env \<Rightarrow> nat \<Rightarrow> (nat \<times> pystr) list \<Rightarrow> world \<Rightarrow> world" where
  "download_loop e file_lines_count [] w = w"
| "download_loop e file_lines_count ((i, url_raw) # rest) w =
     download_loop e file_lines_count rest (download_item e file_lines_count i url_raw w)"

definition enumerate1 :: "'a list \<Rightarrow> (nat \<times> 'a) list" where
  "enumerate1 xs = zip [1..<Suc (length xs)] xs"

text \<open>
  How a run ends: the worker function returns, or an exception leaves it. The only call
  outside a \<open>try\<close> that the model lets fail is the first \<open>os.chdir\<close>.
\<close>

datatype status = Returned | Raised pystr

text \<open>
  \<open>google_drive_bulk_download\<close>, lines 88 to 143 of the source, in its order: the working
  directory is set to the application's directory, the links file is checked, the output
  directory is made and entered, the file is read, and the URLs are downloaded one by one.
\<close>

definition google_drive_bulk_download ::
    "env \<Rightarrow> pystr \<Rightarrow> pystr \<Rightarrow> world \<Rightarrow> status \<times> world" where
  "google_drive_bulk_download e links_file_path output_directory_path w0 =
     (let (r1, w1) = os_chdir e (application_path e) w0 in
      (case r1 of Some err \<Rightarrow> (Raised err, w1) | None \<Rightarrow>
      (let (exists, w2) = is_file e links_file_path w1 in
      if \<not> exists then
        (Returned, log_message (lit ''The file '' @ [39] @ links_file_path @ [39]
                                @ lit '' does not exist!'') (lit ''ERROR'') w2)
      else
      (let (r3, w3) = mkdir e output_directory_path w2 in
      (case r3 of
        Some err \<Rightarrow>
          (Returned, log_message (lit ''Failed to set output directory '' @ [39]
                                  @ output_directory_path @ [39] @ lit '': '' @ err)
                       (lit ''ERROR'') w3)
      | None \<Rightarrow>
      (let (r4, w4) = os_chdir e output_directory_path w3 in
      (case r4 of
        Some err \<Rightarrow>
          (Returned, log_message (lit ''Failed to set output directory '' @ [39]
                                  @ output_directory_path @ [39] @ lit '': '' @ err)
                       (lit ''ERROR'') w4)
      | None \<Rightarrow>
      (let (r5, w5) = open_read e links_file_path w4 in
      (case r5 of
        ReadOSError err \<Rightarrow>
          (Returned, log_message (lit ''Failed to read file '' @ [39] @ links_file_path @ [39]
                                  @ lit '': '' @ err) (lit ''ERROR'') w5)
      | ReadUnicodeDecodeError err \<Rightarrow>
          (Returned, log_message (lit ''Failed to read file '' @ [39] @ links_file_path @ [39]
                                  @ lit '': '' @ err) (lit ''ERROR'') w5)
      | ReadText text \<Rightarrow>
      (let file_lines = file_lines_of text in
      if file_lines = [] then
        (Returned, log_message (lit ''No valid URLs found in the file!'') (lit ''WARNING'') w5)
      else
      (let file_lines_count = length file_lines;
           w6 = log_message (lit ''Started downloading process'') (lit ''INFO'') w5;
           w7 = download_loop e file_lines_count (enumerate1 file_lines) w6
       in (Returned,
           log_message (lit ''Finished downloading process'') (lit ''INFO'') w7))))))))))))"

text \<open>What a trace holds: the URLs handed to the download routine, and the log.\<close>

fun downloads :: "event list \<Rightarrow> pystr list" where
  "downloads [] = []"
| "downloads (Download url # evs) = url # downloads evs"
| "downloads (ev # evs) = downloads evs"

fun log_entries :: "event list \<Rightarrow> (pystr \<times> pystr) list" where
  "log_entries [] = []"
| "log_entries (Log level message # evs) = (level, message) # log_entries evs"
| "log_entries (ev # evs) = log_entries evs"

fun reads :: "event list \<Rightarrow> pystr list" where
  "reads [] = []"
| "reads (ReadFile p # evs) = p # reads evs"
| "reads (ev # evs) = reads evs"


section \<open>Runs and their traces\<close>

text \<open>
  The notions the statements about a run are written in: the world at launch, the paths the
  system calls of a run receive, how far a run gets, and the events one item of the loop
  leaves behind.
\<close>

definition launch :: "pystr \<Rightarrow> world" where
  "launch c = \<lparr>cwd = c, events = []\<rparr>"

definition resolve_in :: "env \<Rightarrow> pystr \<Rightarrow> pystr \<Rightarrow> pystr" where
  "resolve_in e dir path = (if isabs e path then path else join e dir path)"

definition outcome_entry :: "pystr \<Rightarrow> download_outcome \<Rightarrow> pystr \<times> pystr" where
  "outcome_entry url r =
     (case r of
        Completed \<Rightarrow> (lit ''INFO'', lit ''Download completed successfully'')
      | MissingSchema err \<Rightarrow> (lit ''ERROR'', lit ''Invalid URL format: '' @ [39] @ url @ [39])
      | RequestException err \<Rightarrow>
          (lit ''ERROR'', lit ''Network error while downloading '' @ [39] @ url @ [39] @ lit '': '' @ err)
      | OtherException err \<Rightarrow>
          (lit ''ERROR'', lit ''Unexpected error while downloading '' @ [39] @ url @ [39] @ lit '': '' @ err))"

definition progress_message :: "nat \<Rightarrow> nat \<Rightarrow> pystr \<Rightarrow> pystr" where
  "progress_message i n url =
     lit ''Downloading ['' @ str_nat i @ lit ''/'' @ str_nat n @ lit '']: '' @ url"

definition item_events :: "env \<Rightarrow> nat \<Rightarrow> nat \<times> pystr \<Rightarrow> event list" where
  "item_events e n item =
     (let url = fix_google_drive_url (strip (snd item));
          entry = outcome_entry url (download_result e (fst item) url)
      in [Log (lit ''INFO'') (progress_message (fst item) n url), Download url,
          Log (fst entry) (snd entry)])"

text \<open>The two log entries of one item, and whether its download failed.\<close>

definition item_log :: "env \<Rightarrow> nat \<Rightarrow> nat \<times> pystr \<Rightarrow> (pystr \<times> pystr) list" where
  "item_log e n item =
     (let url = fix_google_drive_url (snd item)
      in [(lit ''INFO'', progress_message (fst item) n url),
          outcome_entry url (download_result e (fst item) url)])"

definition item_failed :: "env \<Rightarrow> nat \<times> pystr \<Rightarrow> bool" where
  "item_failed e item
     \<longleftrightarrow> download_result e (fst item) (fix_google_drive_url (snd item)) \<noteq> Completed"

definition app_dir :: "env \<Rightarrow> pystr \<Rightarrow> pystr" where
  "app_dir e c0 = resolve_in e c0 (application_path e)"

definition links_checked :: "env \<Rightarrow> pystr \<Rightarrow> pystr \<Rightarrow> pystr" where
  "links_checked e c0 links_file_path = resolve_in e (app_dir e c0) links_file_path"

definition output_dir :: "env \<Rightarrow> pystr \<Rightarrow> pystr \<Rightarrow> pystr" where
  "output_dir e c0 output_directory_path = resolve_in e (app_dir e c0) output_directory_path"

definition links_opened :: "env \<Rightarrow> pystr \<Rightarrow> pystr \<Rightarrow> pystr \<Rightarrow> pystr" where
  "links_opened e c0 links_file_path output_directory_path =
     resolve_in e (output_dir e c0 output_directory_path) links_file_path"

definition reaches_validation :: "env \<Rightarrow> pystr \<Rightarrow> bool" where
  "reaches_validation e c0 \<longleftrightarrow> chdir_result e (app_dir e c0) = None"

definition reaches_output_setup :: "env \<Rightarrow> pystr \<Rightarrow> pystr \<Rightarrow> bool" where
  "reaches_output_setup e c0 links_file_path \<longleftrightarrow>
     reaches_validation e c0 \<and> is_file_result e (links_checked e c0 links_file_path)"

definition reaches_read :: "env \<Rightarrow> pystr \<Rightarrow> pystr \<Rightarrow> pystr \<Rightarrow> bool" where
  "reaches_read e c0 links_file_path output_directory_path \<longleftrightarrow>
     reaches_output_setup e c0 links_file_path
     \<and> mkdir_result e (output_dir e c0 output_directory_path) = None
     \<and> chdir_result e (output_dir e c0 output_directory_path) = None"


text \<open>
  A small world to run the downloader in: a POSIX machine where the script lives in
  \<open>/app\<close>, two links files exist under \<open>/data\<close>, nothing can be made under
  \<open>/readonly\<close>, and the second and third download of a run fail.
\<close>

definition example_text :: pystr where
  "example_text = lit '' https://drive.google.com/file/d/A/view '' @ [13, 10, 10]
     @ lit ''ftp//x'' @ [10] @ lit ''  '' @ [10] @ lit ''http://e.com/z''"

definition example_env :: env where
  "example_env = \<lparr>frozen = False, meipass = [], script_dir = lit ''/app'',
     isabs = (\<lambda>p. startswith p (lit ''/'')),
     join = (\<lambda>c p. c @ lit ''/'' @ p),
     chdir_result = (\<lambda>p. if p = lit ''/locked'' then Some (lit ''Permission denied'') else None),
     is_file_result = (\<lambda>p. p = lit ''/data/links.txt'' \<or> p = lit ''/data/blank.txt''
                             \<or> p = lit ''/app/links.txt''),
     mkdir_result = (\<lambda>p. if startswith p (lit ''/readonly'')
                           then Some (lit ''Read-only file system'') else None),
     read_result = (\<lambda>p. if p = lit ''/data/links.txt'' then ReadText example_text
                          else if p = lit ''/data/blank.txt''
                          then ReadText (lit ''  '' @ [10, 9, 13, 10])
                          else ReadOSError (lit ''No such file or directory'')),
     download_result = (\<lambda>i u. if i = 2 then MissingSchema (lit ''no scheme'')
                              else if i = 3 then RequestException (lit ''timed out'')
                              else Completed)\<rparr>"

section \<open>Facts about the string operations\<close>

lemma startswith_iff: "startswith s p \<longleftrightarrow> (\<exists>v. s = p @ v)"
  by (induction s p rule: startswith.induct) auto

lemma contains_iff: "contains s sub \<longleftrightarrow> (\<exists>u v. s = u @ sub @ v)"
proof (induction s)
  case Nil
  show ?case by auto
next
  case (Cons c cs)
  show ?case
  proof
    assume "contains (c # cs) sub"
    then consider "startswith (c # cs) sub" | "contains cs sub" by auto
    then show "\<exists>u v. c # cs = u @ sub @ v"
    proof cases
      case 1
      then obtain v where "c # cs = sub @ v" by (auto simp: startswith_iff)
      then have "c # cs = [] @ sub @ v" by simp
      then show ?thesis by blast
    next
      case 2
      then obtain u v where "cs = u @ sub @ v" using Cons.IH by blast
      then have "c # cs = (c # u) @ sub @ v" by simp
      then show ?thesis by blast
    qed
  next
    assume "\<exists>u v. c # cs = u @ sub @ v"
    then obtain u v where uv: "c # cs = u @ sub @ v" by blast
    show "contains (c # cs) sub"
    proof (cases u)
      case Nil
      with uv have "startswith (c # cs) sub" by (auto simp: startswith_iff)
      then show ?thesis by simp
    next
      case (Cons d u')
      with uv have "cs = u' @ sub @ v" by simp
      then have "contains cs sub" using Cons.IH by blast
      then show ?thesis by simp
    qed
  qed
qed

lemma contains_occurs: "contains s sub = occurs s sub"
  by (simp add: contains_iff occurs_def)

lemma replace_absent: "\<not> contains s old \<Longrightarrow> replace s old new = s"
  by (induction s) auto

lemma startswith_append_left:
  assumes "startswith (u @ old @ v) old" and "u \<noteq> []"
  shows "contains (u @ butlast old) old"
proof (cases "old = []")
  case True
  then show ?thesis by (cases u) auto
next
  case False
  from assms(1) obtain w where w: "u @ old @ v = old @ w" by (auto simp: startswith_iff)
  have len: "length old \<le> length (u @ butlast old)" using assms(2) False
    by (cases u) auto
  have "take (length old) (u @ old @ v) = old" using w by simp
  moreover have "take (length old) (u @ old @ v) = take (length old) (u @ butlast old)"
  proof -
    have "u @ old @ v = (u @ butlast old) @ (last old # v)" using False by simp
    then show ?thesis using len by (metis append.right_neutral take_append take_eq_Nil diff_is_0_eq)
  qed
  ultimately have "take (length old) (u @ butlast old) = old" by simp
  then have "u @ butlast old = [] @ old @ drop (length old) (u @ butlast old)"
    by (metis append_Nil append_take_drop_id)
  then show ?thesis unfolding contains_iff by blast
qed

lemma replace_leftmost:
  assumes "old \<noteq> []"
  shows "\<not> contains (u @ butlast old) old \<Longrightarrow>
     replace (u @ old @ v) old new = u @ new @ replace v old new"
proof (induction u)
  case Nil
  obtain a as where old: "old = a # as" using assms by (auto simp: neq_Nil_conv)
  have "startswith (old @ v) old" by (simp add: startswith_iff)
  then show ?case by (simp add: old)
next
  case (Cons c u)
  have "\<not> startswith ((c # u) @ old @ v) old"
    using Cons.prems startswith_append_left by blast
  moreover have "\<not> contains (u @ butlast old) old"
    using Cons.prems by simp
  ultimately show ?case using Cons.IH assms by simp
qed

lemma replaced_Cons:
  assumes "replaced old new cs t" and "\<not> startswith (c # cs) old"
  shows "replaced old new (c # cs) (c # t)"
  using assms
proof (cases rule: replaced.cases)
  case absent
  then have "\<not> occurs (c # cs) old" using assms(2) by (simp add: contains_occurs [symmetric])
  then show ?thesis using absent replaced.absent by blast
next
  case (leftmost u v t')
  have "\<not> contains ((c # u) @ butlast old) old"
  proof
    assume "contains ((c # u) @ butlast old) old"
    then have "startswith ((c # u) @ butlast old) old"
      using leftmost(3) by (simp add: contains_occurs [symmetric])
    then obtain w where w: "(c # u) @ butlast old = old @ w" by (auto simp: startswith_iff)
    have "old \<noteq> []" using assms(2) by auto
    then have "c # cs = ((c # u) @ butlast old) @ (last old # v)" using leftmost(1) by simp
    then have "c # cs = old @ (w @ last old # v)" using w by simp
    then show False using assms(2) startswith_iff by blast
  qed
  then have "replaced old new ((c # u) @ old @ v) ((c # u) @ new @ t')"
    using leftmost(4) replaced.leftmost by (metis contains_occurs)
  then show ?thesis using leftmost by simp
qed

lemma replaced_replace:
  assumes "old \<noteq> []"
  shows "replaced old new s (replace s old new)"
  using assms
proof (induction s old new rule: replace.induct)
  case (1 old new)
  have "\<not> occurs [] old" using 1 by (auto simp: occurs_def)
  then show ?case using 1 replaced.absent by fastforce
next
  case (2 c cs old new)
  show ?case
  proof (cases "startswith (c # cs) old")
    case True
    then obtain v where v: "c # cs = old @ v" by (auto simp: startswith_iff)
    then have d: "drop (length old) (c # cs) = v" by simp
    have "replaced old new v (replace v old new)" using "2.IH"(2) "2.prems" True d by simp
    moreover have "\<not> occurs ([] @ butlast old) old"
    proof
      assume "occurs ([] @ butlast old) old"
      then obtain a b where "butlast old = a @ old @ b" by (auto simp: occurs_def)
      then have "length (butlast old) = length (a @ old @ b)" by simp
      then have "length old - 1 = length a + length old + length b" by simp
      moreover have "0 < length old" using "2.prems" by simp
      ultimately show False by arith
    qed
    ultimately have "replaced old new ([] @ old @ v) ([] @ new @ replace v old new)"
      by (rule replaced.leftmost [rotated])
    then have "replaced old new (c # cs) (new @ replace v old new)" by (simp add: v)
    then show ?thesis using True "2.prems" d by simp
  next
    case False
    then have "replaced old new cs (replace cs old new)" using "2.IH"(3) "2.prems" by simp
    then have "replaced old new (c # cs) (c # replace cs old new)"
      using False by (rule replaced_Cons)
    then show ?thesis using False "2.prems" by simp
  qed
qed

lemma replaced_unique:
  assumes "old \<noteq> []"
  shows "replaced old new s t \<Longrightarrow> t = replace s old new"
proof (induction rule: replaced.induct)
  case (absent s)
  then show ?case by (simp add: replace_absent contains_occurs)
next
  case (leftmost u v t)
  then show ?case using assms by (simp add: replace_leftmost contains_occurs)
qed



section \<open>Facts about runs\<close>

lemma levels_get_simps:
  "levels_get (lit ''INFO'') = lit ''INFO''"
  "levels_get (lit ''ERROR'') = lit ''ERROR''"
  "levels_get (lit ''WARNING'') = lit ''WARNING''"
  by (simp_all add: levels_get_def levels_def lit_def)

lemma log_message_eq:
  "log_message m l w = w\<lparr>events := events w @ [Log (levels_get l) m]\<rparr>"
  by (simp add: log_message_def emit_def)

lemma download_item_eq:
  "download_item e n i u w = w\<lparr>events := events w @ item_events e n (i, u)\<rparr>"
  by (cases "download_result e i (fix_google_drive_url (strip u))")
     (simp_all add: download_item_def download_def outcome_message_def log_message_eq emit_def
        item_events_def outcome_entry_def progress_message_def levels_get_simps Let_def)

lemma download_loop_eq:
  "download_loop e n items w = w\<lparr>events := events w @ concat (map (item_events e n) items)\<rparr>"
proof (induction items arbitrary: w)
  case Nil
  show ?case by simp
next
  case (Cons item items)
  obtain i u where item: "item = (i, u)" by (cases item)
  show ?case by (simp add: item Cons.IH download_item_eq)
qed

lemma resolve_eq: "resolve e w path = resolve_in e (cwd w) path"
  by (simp add: resolve_def resolve_in_def)

lemmas run_defs =
  google_drive_bulk_download_def os_chdir_def is_file_def mkdir_def open_read_def resolve_eq
  emit_def log_message_eq levels_get_simps launch_def Let_def download_loop_eq
  reaches_read_def reaches_output_setup_def reaches_validation_def
  app_dir_def links_checked_def output_dir_def links_opened_def

lemma run_raised:
  assumes "chdir_result e (app_dir e c0) = Some err"
  shows "google_drive_bulk_download e links out (launch c0)
           = (Raised err, \<lparr>cwd = c0, events = [Chdir (app_dir e c0)]\<rparr>)"
  using assms by (simp add: run_defs)

lemma run_missing:
  assumes "reaches_validation e c0" and "\<not> is_file_result e (links_checked e c0 links)"
  shows "google_drive_bulk_download e links out (launch c0)
           = (Returned, \<lparr>cwd = app_dir e c0, events =
                [Chdir (app_dir e c0), IsFile (links_checked e c0 links),
                 Log (lit ''ERROR'')
                   (lit ''The file '' @ [39] @ links @ [39] @ lit '' does not exist!'')]\<rparr>)"
  using assms by (simp add: run_defs)

lemma run_mkdir_failed:
  assumes "reaches_output_setup e c0 links"
    and "mkdir_result e (output_dir e c0 out) = Some err"
  shows "google_drive_bulk_download e links out (launch c0)
           = (Returned, \<lparr>cwd = app_dir e c0, events =
                [Chdir (app_dir e c0), IsFile (links_checked e c0 links),
                 Mkdir (output_dir e c0 out),
                 Log (lit ''ERROR'')
                   (lit ''Failed to set output directory '' @ [39] @ out @ [39] @ lit '': ''
                    @ err)]\<rparr>)"
  using assms by (simp add: run_defs)

lemma run_chdir_failed:
  assumes "reaches_output_setup e c0 links"
    and "mkdir_result e (output_dir e c0 out) = None"
    and "chdir_result e (output_dir e c0 out) = Some err"
  shows "google_drive_bulk_download e links out (launch c0)
           = (Returned, \<lparr>cwd = app_dir e c0, events =
                [Chdir (app_dir e c0), IsFile (links_checked e c0 links),
                 Mkdir (output_dir e c0 out), Chdir (output_dir e c0 out),
                 Log (lit ''ERROR'')
                   (lit ''Failed to set output directory '' @ [39] @ out @ [39] @ lit '': ''
                    @ err)]\<rparr>)"
  using assms by (simp add: run_defs)

lemma run_read_failed:
  assumes "reaches_read e c0 links out"
    and "read_result e (links_opened e c0 links out) = ReadOSError err
         \<or> read_result e (links_opened e c0 links out) = ReadUnicodeDecodeError err"
  shows "google_drive_bulk_download e links out (launch c0)
           = (Returned, \<lparr>cwd = output_dir e c0 out, events =
                [Chdir (app_dir e c0), IsFile (links_checked e c0 links),
                 Mkdir (output_dir e c0 out), Chdir (output_dir e c0 out),
                 ReadFile (links_opened e c0 links out),
                 Log (lit ''ERROR'')
                   (lit ''Failed to read file '' @ [39] @ links @ [39] @ lit '': '' @ err)]\<rparr>)"
  using assms by (auto simp add: run_defs)

lemma run_empty:
  assumes "reaches_read e c0 links out"
    and "read_result e (links_opened e c0 links out) = ReadText text"
    and "file_lines_of text = []"
  shows "google_drive_bulk_download e links out (launch c0)
           = (Returned, \<lparr>cwd = output_dir e c0 out, events =
                [Chdir (app_dir e c0), IsFile (links_checked e c0 links),
                 Mkdir (output_dir e c0 out), Chdir (output_dir e c0 out),
                 ReadFile (links_opened e c0 links out),
                 Log (lit ''WARNING'') (lit ''No valid URLs found in the file!'')]\<rparr>)"
  using assms by (simp add: run_defs)

lemma run_loop:
  assumes "reaches_read e c0 links out"
    and "read_result e (links_opened e c0 links out) = ReadText text"
    and "file_lines_of text \<noteq> []"
  shows "google_drive_bulk_download e links out (launch c0)
           = (Returned, \<lparr>cwd = output_dir e c0 out, events =
                [Chdir (app_dir e c0), IsFile (links_checked e c0 links),
                 Mkdir (output_dir e c0 out), Chdir (output_dir e c0 out),
                 ReadFile (links_opened e c0 links out),
                 Log (lit ''INFO'') (lit ''Started downloading process'')]
                @ concat (map (item_events e (length (file_lines_of text)))
                            (enumerate1 (file_lines_of text)))
                @ [Log (lit ''INFO'') (lit ''Finished downloading process'')]\<rparr>)"
  using assms by (simp add: run_defs)

lemma downloads_append: "downloads (xs @ ys) = downloads xs @ downloads ys"
  by (induction xs rule: downloads.induct) simp_all

lemma log_entries_append: "log_entries (xs @ ys) = log_entries xs @ log_entries ys"
  by (induction xs rule: log_entries.induct) simp_all

lemma downloads_items:
  "downloads (concat (map (item_events e n) items))
     = map (\<lambda>item. fix_google_drive_url (strip (snd item))) items"
  by (induction items) (simp_all add: downloads_append item_events_def Let_def)

lemma map_snd_enumerate1: "map snd (enumerate1 xs) = xs"
  by (simp add: enumerate1_def del: upt_Suc)

lemma snd_in_enumerate1: "item \<in> set (enumerate1 xs) \<Longrightarrow> snd item \<in> set xs"
  by (metis enumerate1_def prod.collapse set_zip_rightD)

lemma dropWhile_fixed: "xs = [] \<or> \<not> P (hd xs) \<Longrightarrow> dropWhile P xs = xs"
  by (cases xs) auto

lemma hd_dropWhile_or_Nil: "dropWhile P xs = [] \<or> \<not> P (hd (dropWhile P xs))"
  using hd_dropWhile by blast

lemma strip_idem: "strip (strip s) = strip s"
proof -
  define t where "t = dropWhile isspace s"
  define r where "r = rev (dropWhile isspace (rev t))"
  have t: "t = [] \<or> \<not> isspace (hd t)" unfolding t_def by (rule hd_dropWhile_or_Nil)
  have split: "t = r @ rev (takeWhile isspace (rev t))"
    unfolding r_def by (metis rev_append rev_rev_ident takeWhile_dropWhile_id)
  have r: "r = [] \<or> \<not> isspace (hd r)"
  proof (cases "r = []")
    case True then show ?thesis by simp
  next
    case False
    then have "hd t = hd r" using split by (metis hd_append2)
    moreover have "t \<noteq> []" using False split by auto
    ultimately show ?thesis using t by simp
  qed
  have 1: "dropWhile isspace r = r" using r by (rule dropWhile_fixed)
  have "dropWhile isspace (rev r) = rev r"
    unfolding r_def by simp
  then have "rev (dropWhile isspace (rev (dropWhile isspace r))) = r" using 1 by simp
  then show ?thesis by (simp add: strip_def r_def t_def)
qed

lemma strip_file_line: "line \<in> set (file_lines_of text) \<Longrightarrow> strip line = line"
  by (auto simp: file_lines_of_def strip_idem)

lemma length_file_lines_of:
  "length (file_lines_of text)
     = length (filter (\<lambda>line. strip line \<noteq> []) (readlines (universal_newlines text)))"
  by (simp add: file_lines_of_def)

lemma fix_strip_items:
  "map (\<lambda>item. fix_google_drive_url (strip (snd item))) (enumerate1 (file_lines_of text))
     = map fix_google_drive_url (file_lines_of text)"
proof -
  have "map (\<lambda>item. fix_google_drive_url (strip (snd item))) (enumerate1 (file_lines_of text))
      = map (\<lambda>item. fix_google_drive_url (snd item)) (enumerate1 (file_lines_of text))"
    by (rule map_cong) (auto dest: snd_in_enumerate1 simp: strip_file_line)
  also have "\<dots> = map fix_google_drive_url (map snd (enumerate1 (file_lines_of text)))"
    by simp
  finally show ?thesis by (simp add: map_snd_enumerate1)
qed

lemma reaches_download_result [simp]:
  "reaches_read (e\<lparr>download_result := d\<rparr>) c0 links out = reaches_read e c0 links out"
  "links_opened (e\<lparr>download_result := d\<rparr>) c0 links out = links_opened e c0 links out"
  by (simp_all add: reaches_read_def reaches_output_setup_def reaches_validation_def
        app_dir_def links_checked_def output_dir_def links_opened_def resolve_in_def
        application_path_def)


lemmas example_defs =
  example_env_def example_text_def reaches_read_def reaches_output_setup_def
  reaches_validation_def app_dir_def links_checked_def output_dir_def links_opened_def
  resolve_in_def application_path_def lit_def

lemma example_reaches_read:
  "reaches_read example_env (lit ''/home'') (lit ''/data/links.txt'') (lit ''/out'')"
  by (simp add: example_defs)

lemma example_read:
  "read_result example_env
     (links_opened example_env (lit ''/home'') (lit ''/data/links.txt'') (lit ''/out''))
   = ReadText example_text"
  by (simp add: example_defs)

lemma example_file_lines:
  "file_lines_of example_text
     = [lit ''https://drive.google.com/file/d/A/view'', lit ''ftp//x'', lit ''http://e.com/z'']"
  by (simp add: example_text_def file_lines_of_def strip_def isspace_def lit_def)

lemma example_urls:
  "map fix_google_drive_url (file_lines_of example_text)
     = [lit ''https://drive.google.com/uc?id=A'', lit ''ftp//x'', lit ''http://e.com/z'']"
  by (simp add: example_file_lines) (simp add: fix_google_drive_url_def lit_def)

lemma blank_file_lines:
  "(\<forall>line\<in>set (readlines (universal_newlines text)). strip line = [])
     \<Longrightarrow> file_lines_of text = []"
  by (simp add: file_lines_of_def filter_empty_conv)

lemma first_chdir:
  assumes "isabs e (application_path e)" and "chdir_result e (application_path e) = None"
  shows "os_chdir e (application_path e) (launch c0)
           = (None, \<lparr>cwd = application_path e, events = [Chdir (application_path e)]\<rparr>)"
  using assms by (simp add: os_chdir_def resolve_def emit_def launch_def Let_def)

lemma run_after_first_chdir:
  assumes "isabs e (application_path e)" and "chdir_result e (application_path e) = None"
  shows "google_drive_bulk_download e links out (launch c0)
           = google_drive_bulk_download e links out (launch c1)"
  by (simp only: google_drive_bulk_download_def first_chdir [OF assms])

lemma run_checks_links_next:
  assumes v: "reaches_validation e c0"
  shows "take 2 (events (snd (google_drive_bulk_download e links out (launch c0))))
     = [Chdir (app_dir e c0), IsFile (links_checked e c0 links)]"
proof (cases "is_file_result e (links_checked e c0 links)")
  case False
  then show ?thesis by (simp add: run_missing [OF v])
next
  case True
  then have s: "reaches_output_setup e c0 links" using v by (simp add: reaches_output_setup_def)
  show ?thesis
  proof (cases "mkdir_result e (output_dir e c0 out)")
    case (Some err)
    then show ?thesis by (simp add: run_mkdir_failed [OF s])
  next
    case None
    note mk = None
    show ?thesis
    proof (cases "chdir_result e (output_dir e c0 out)")
      case (Some err)
      then show ?thesis by (simp add: run_chdir_failed [OF s mk])
    next
      case None
      then have r: "reaches_read e c0 links out" using s mk by (simp add: reaches_read_def)
      show ?thesis
      proof (cases "read_result e (links_opened e c0 links out)")
        case (ReadOSError err)
        then show ?thesis by (simp add: run_read_failed [OF r disjI1])
      next
        case (ReadUnicodeDecodeError err)
        then show ?thesis by (simp add: run_read_failed [OF r disjI2])
      next
        case (ReadText body)
        then show ?thesis
          by (cases "file_lines_of body = []")
             (simp_all add: run_empty [OF r] run_loop [OF r])
      qed
    qed
  qed
qed

lemma run_starts_with_chdir:
  "take 1 (events (snd (google_drive_bulk_download e links out (launch c0))))
     = [Chdir (app_dir e c0)]"
proof (cases "chdir_result e (app_dir e c0)")
  case (Some err)
  then show ?thesis by (simp add: run_raised)
next
  case None
  then have v: "reaches_validation e c0" by (simp add: reaches_validation_def)
  have "take 1 (take 2 (events (snd (google_drive_bulk_download e links out (launch c0)))))
          = [Chdir (app_dir e c0)]"
    by (simp only: run_checks_links_next [OF v]) simp
  then show ?thesis by simp
qed

lemma log_entries_items_stripped:
  assumes "\<forall>item\<in>set items. strip (snd item) = snd item"
  shows "log_entries (concat (map (item_events e n) items)) = concat (map (item_log e n) items)"
  using assms
  by (induction items) (simp_all add: log_entries_append item_events_def item_log_def Let_def)

lemma info_not_error: "lit ''INFO'' \<noteq> lit ''ERROR''"
  by (simp add: lit_def)

lemma errors_of_item:
  "length (filter (\<lambda>entry. fst entry = lit ''ERROR'') (item_log e n item))
     = (if item_failed e item then 1 else 0)"
  by (cases "download_result e (fst item) (fix_google_drive_url (snd item))")
     (simp_all add: item_log_def item_failed_def outcome_entry_def info_not_error Let_def)

lemma errors_of_items:
  "length (filter (\<lambda>entry. fst entry = lit ''ERROR'') (concat (map (item_log e n) items)))
     = length (filter (item_failed e) items)"
  by (induction items) (simp_all add: errors_of_item)

lemma finished_not_in_item:
  "filter (\<lambda>entry. snd entry = lit ''Finished downloading process'') (item_log e n item) = []"
  by (cases "download_result e (fst item) (fix_google_drive_url (snd item))")
     (simp_all add: item_log_def outcome_entry_def progress_message_def lit_def Let_def)

lemma finished_not_in_items:
  "filter (\<lambda>entry. snd entry = lit ''Finished downloading process'')
     (concat (map (item_log e n) items)) = []"
  by (induction items) (simp_all add: finished_not_in_item)

lemma outcome_in_item_log:
  "outcome_entry (fix_google_drive_url (snd item))
     (download_result e (fst item) (fix_google_drive_url (snd item))) \<in> set (item_log e n item)"
  by (simp add: item_log_def Let_def)

lemma item_log_in_items:
  "item \<in> set items \<Longrightarrow> entry \<in> set (item_log e n item)
     \<Longrightarrow> entry \<in> set (concat (map (item_log e n) items))"
  by auto

lemma run_loop_log:
  assumes "reaches_read e c0 links out"
    and "read_result e (links_opened e c0 links out) = ReadText body"
    and "file_lines_of body \<noteq> []"
  shows "log_entries (events (snd (google_drive_bulk_download e links out (launch c0))))
     = (lit ''INFO'', lit ''Started downloading process'')
       # concat (map (item_log e (length (file_lines_of body))) (enumerate1 (file_lines_of body)))
       @ [(lit ''INFO'', lit ''Finished downloading process'')]"
proof -
  have "\<forall>item\<in>set (enumerate1 (file_lines_of body)). strip (snd item) = snd item"
    by (auto dest: snd_in_enumerate1 simp: strip_file_line)
  then show ?thesis
    by (simp add: run_loop [OF assms] log_entries_append log_entries_items_stripped)
qed

section \<open>The normalizer on the inputs of the specification\<close>

text \<open>
  Claim C3. The share link \<open>https://drive.google.com/file/d/ABC123/view\<close> is normalized to
  \<open>https://drive.google.com/uc?id=ABC123\<close>, which contains \<open>uc?id=ABC123\<close> and does not end
  in \<open>/view\<close>; \<open>https://example.com/foo.zip\<close> is returned unchanged.
\<close>

theorem normalize_spec_examples:
  "fix_google_drive_url (lit ''https://drive.google.com/file/d/ABC123/view'')
     = lit ''https://drive.google.com/uc?id=ABC123''
   \<and> contains (fix_google_drive_url (lit ''https://drive.google.com/file/d/ABC123/view''))
        (lit ''uc?id=ABC123'')
   \<and> \<not> endswith (fix_google_drive_url (lit ''https://drive.google.com/file/d/ABC123/view''))
        (lit ''/view'')
   \<and> fix_google_drive_url (lit ''https://example.com/foo.zip'') = lit ''https://example.com/foo.zip''"
  by (simp add: fix_google_drive_url_def lit_def endswith_def)

text \<open>
  Claim C8. Whether the rewrite is applied is decided by a substring test alone: the two
  replacements are made exactly when \<open>drive.google.com\<close> occurs somewhere in the string,
  and otherwise the string is returned as it is. No part of the string is read as a host.
\<close>

theorem rewrite_iff_substring:
  "fix_google_drive_url url =
     (if (\<exists>u v. url = u @ lit ''drive.google.com'' @ v)
      then replace (replace url (lit ''/file/d/'') (lit ''/uc?id='')) (lit ''/view'') []
      else url)"
  by (simp add: fix_google_drive_url_def contains_iff)

theorem rewrite_iff_substring_witness:
  "fix_google_drive_url (lit ''https://notdrive.google.com/file/d/X/view'')
     = lit ''https://notdrive.google.com/uc?id=X''
   \<and> fix_google_drive_url (lit ''https://example.com/view?next=drive.google.com'')
     = lit ''https://example.com?next=drive.google.com''
   \<and> fix_google_drive_url (lit ''https://example.com/file/d/X/view'')
     = lit ''https://example.com/file/d/X/view''"
proof -
  have "lit ''https://notdrive.google.com/file/d/X/view''
          = lit ''https://not'' @ lit ''drive.google.com'' @ lit ''/file/d/X/view''"
    by (simp add: lit_def)
  then have 1: "\<exists>u v. lit ''https://notdrive.google.com/file/d/X/view''
                  = u @ lit ''drive.google.com'' @ v" by blast
  have "lit ''https://example.com/view?next=drive.google.com''
          = lit ''https://example.com/view?next='' @ lit ''drive.google.com'' @ []"
    by (simp add: lit_def)
  then have 2: "\<exists>u v. lit ''https://example.com/view?next=drive.google.com''
                  = u @ lit ''drive.google.com'' @ v" by blast
  have 3: "\<not> (\<exists>u v. lit ''https://example.com/file/d/X/view''
                  = u @ lit ''drive.google.com'' @ v)"
    unfolding contains_iff [symmetric] by (simp add: lit_def)
  have a: "fix_google_drive_url (lit ''https://notdrive.google.com/file/d/X/view'')
     = lit ''https://notdrive.google.com/uc?id=X''"
    by (simp only: rewrite_iff_substring [of "lit ''https://notdrive.google.com/file/d/X/view''"]
          1 if_True) (simp add: lit_def)
  have b: "fix_google_drive_url (lit ''https://example.com/view?next=drive.google.com'')
     = lit ''https://example.com?next=drive.google.com''"
    by (simp only: rewrite_iff_substring
          [of "lit ''https://example.com/view?next=drive.google.com''"] 2 if_True)
       (simp add: lit_def)
  have c: "fix_google_drive_url (lit ''https://example.com/file/d/X/view'')
     = lit ''https://example.com/file/d/X/view''"
    by (simp only: rewrite_iff_substring [of "lit ''https://example.com/file/d/X/view''"]
          3 if_False)
  show ?thesis using a b c by blast
qed

text \<open>
  Claim C9. For a string that contains \<open>drive.google.com\<close>, the result is the string in
  which every occurrence of \<open>/file/d/\<close> has been replaced by \<open>/uc?id=\<close> and then every
  occurrence of \<open>/view\<close> has been removed, wherever it stands; the result is the only
  string of which this is true. When \<open>/file/d/\<close> is absent the removal of \<open>/view\<close> is
  still made, and when \<open>/view\<close> is absent the replacement of \<open>/file/d/\<close> is still made.
\<close>

theorem every_occurrence_replaced:
  assumes "contains url (lit ''drive.google.com'')"
  shows "((\<exists>mid. replaced (lit ''/file/d/'') (lit ''/uc?id='') url mid
                \<and> replaced (lit ''/view'') [] mid t)
          \<longleftrightarrow> t = fix_google_drive_url url)
    \<and> (\<not> contains url (lit ''/file/d/'')
          \<longrightarrow> fix_google_drive_url url = replace url (lit ''/view'') [])
    \<and> (\<not> contains (replace url (lit ''/file/d/'') (lit ''/uc?id='')) (lit ''/view'')
          \<longrightarrow> fix_google_drive_url url = replace url (lit ''/file/d/'') (lit ''/uc?id=''))"
proof (intro conjI impI)
  show "(\<exists>mid. replaced (lit ''/file/d/'') (lit ''/uc?id='') url mid
                \<and> replaced (lit ''/view'') [] mid t)
          \<longleftrightarrow> t = fix_google_drive_url url"
  proof
    assume "\<exists>mid. replaced (lit ''/file/d/'') (lit ''/uc?id='') url mid
                  \<and> replaced (lit ''/view'') [] mid t"
    then obtain mid where m: "replaced (lit ''/file/d/'') (lit ''/uc?id='') url mid"
      and t: "replaced (lit ''/view'') [] mid t" by blast
    have "mid = replace url (lit ''/file/d/'') (lit ''/uc?id='')"
      using m by (intro replaced_unique) (simp_all add: lit_def)
    moreover have "t = replace mid (lit ''/view'') []"
      using t by (intro replaced_unique) (simp_all add: lit_def)
    ultimately show "t = fix_google_drive_url url"
      using assms by (simp add: fix_google_drive_url_def)
  next
    assume t: "t = fix_google_drive_url url"
    have "replaced (lit ''/file/d/'') (lit ''/uc?id='') url
            (replace url (lit ''/file/d/'') (lit ''/uc?id=''))"
      by (rule replaced_replace) (simp add: lit_def)
    moreover have "replaced (lit ''/view'') [] (replace url (lit ''/file/d/'') (lit ''/uc?id=''))
            (replace (replace url (lit ''/file/d/'') (lit ''/uc?id='')) (lit ''/view'') [])"
      by (rule replaced_replace) (simp add: lit_def)
    ultimately show "\<exists>mid. replaced (lit ''/file/d/'') (lit ''/uc?id='') url mid
                  \<and> replaced (lit ''/view'') [] mid t"
      using assms t by (auto simp: fix_google_drive_url_def)
  qed
next
  assume "\<not> contains url (lit ''/file/d/'')"
  then show "fix_google_drive_url url = replace url (lit ''/view'') []"
    using assms by (simp add: fix_google_drive_url_def replace_absent)
next
  assume "\<not> contains (replace url (lit ''/file/d/'') (lit ''/uc?id='')) (lit ''/view'')"
  then show "fix_google_drive_url url = replace url (lit ''/file/d/'') (lit ''/uc?id='')"
    using assms by (simp add: fix_google_drive_url_def replace_absent)
qed

theorem every_occurrence_replaced_witness:
  "contains (lit ''https://drive.google.com/file/d/A/view?x=/file/d/B/view#c'')
     (lit ''drive.google.com'')
   \<and> (\<exists>mid. replaced (lit ''/file/d/'') (lit ''/uc?id='')
                 (lit ''https://drive.google.com/file/d/A/view?x=/file/d/B/view#c'') mid
              \<and> replaced (lit ''/view'') [] mid
                 (lit ''https://drive.google.com/uc?id=A?x=/uc?id=B#c''))"
proof -
  have h: "contains (lit ''https://drive.google.com/file/d/A/view?x=/file/d/B/view#c'')
             (lit ''drive.google.com'')"
    by (simp add: lit_def)
  have v: "lit ''https://drive.google.com/uc?id=A?x=/uc?id=B#c''
             = fix_google_drive_url
                 (lit ''https://drive.google.com/file/d/A/view?x=/file/d/B/view#c'')"
    by (simp add: fix_google_drive_url_def lit_def)
  show ?thesis
    using every_occurrence_replaced
      [OF h, of "lit ''https://drive.google.com/uc?id=A?x=/uc?id=B#c''"] h v
    by blast
qed

text \<open>
  Each replacement is one pass from the left, as \<open>str.replace\<close> is: what a removal brings
  together is not removed again, and of two copies that share a character only the left
  one is replaced.
\<close>

lemma replacement_is_one_pass:
  "fix_google_drive_url (lit ''https://drive.google.com/vi/viewew'')
     = lit ''https://drive.google.com/view''
   \<and> fix_google_drive_url (lit ''https://drive.google.com/file/d/file/d/'')
     = lit ''https://drive.google.com/uc?id=file/d/''"
  by (simp add: fix_google_drive_url_def lit_def)




section \<open>The download loop\<close>

text \<open>
  Claim C1. When the run gets as far as reading the links file and the read gives a text,
  the URLs handed to the download routine are exactly the trimmed non-blank lines of the
  text, each normalized, in the order of the file: as many downloads as there are
  non-blank lines. This holds for every outcome function \<open>d\<close> of the download routine,
  so no failure of one item changes what is attempted.
\<close>

theorem attempts_one_per_line_in_order:
  assumes "reaches_read e c0 links out"
    and "read_result e (links_opened e c0 links out) = ReadText text"
  shows "downloads (events (snd (google_drive_bulk_download (e\<lparr>download_result := d\<rparr>)
            links out (launch c0))))
           = map fix_google_drive_url (file_lines_of text)
         \<and> length (downloads (events (snd (google_drive_bulk_download
             (e\<lparr>download_result := d\<rparr>) links out (launch c0)))))
           = length (filter (\<lambda>line. strip line \<noteq> []) (readlines (universal_newlines text)))"
proof -
  let ?e = "e\<lparr>download_result := d\<rparr>"
  have reach: "reaches_read ?e c0 links out" using assms(1) by simp
  have rd: "read_result ?e (links_opened ?e c0 links out) = ReadText text"
    using assms(2) by simp
  have "downloads (events (snd (google_drive_bulk_download ?e links out (launch c0))))
          = map fix_google_drive_url (file_lines_of text)"
  proof (cases "file_lines_of text = []")
    case True
    show ?thesis by (simp add: run_empty [OF reach rd True] True)
  next
    case False
    show ?thesis
      by (simp add: run_loop [OF reach rd False] downloads_append downloads_items
            fix_strip_items)
  qed
  then show ?thesis by (simp add: length_file_lines_of)
qed

theorem attempts_one_per_line_in_order_witness:
  "reaches_read example_env (lit ''/home'') (lit ''/data/links.txt'') (lit ''/out'')
   \<and> read_result example_env
         (links_opened example_env (lit ''/home'') (lit ''/data/links.txt'') (lit ''/out''))
       = ReadText example_text
   \<and> downloads (events (snd (google_drive_bulk_download
         (example_env\<lparr>download_result := (\<lambda>i u. OtherException (lit ''boom''))\<rparr>)
         (lit ''/data/links.txt'') (lit ''/out'') (launch (lit ''/home'')))))
       = [lit ''https://drive.google.com/uc?id=A'', lit ''ftp//x'', lit ''http://e.com/z'']"
  using attempts_one_per_line_in_order [OF example_reaches_read example_read,
      of "\<lambda>i u. OtherException (lit ''boom'')"]
    example_reaches_read example_read
  by (simp add: example_urls)

lemma example_items:
  "enumerate1 (file_lines_of example_text)
     = [(1, lit ''https://drive.google.com/file/d/A/view''), (2, lit ''ftp//x''),
        (3, lit ''http://e.com/z'')]"
  by (simp add: example_file_lines enumerate1_def upt_rec)

text \<open>
  Claim C4. In a run that reaches the loop, the worker returns normally and every URL is
  handed to the download routine, whatever the outcomes. The log is the opening message,
  two entries per item (the progress line and the outcome), and the closing message. The
  ERROR entries are as many as the items whose download failed; the closing message is in
  the log once. A malformed URL is reported with the URL, a network error and any other
  error with the URL and the text of the error.
\<close>

theorem item_failures_logged_loop_continues:
  assumes "reaches_read e c0 links out"
    and "read_result e (links_opened e c0 links out) = ReadText body"
    and "file_lines_of body \<noteq> []"
  shows "fst (google_drive_bulk_download e links out (launch c0)) = Returned
    \<and> downloads (events (snd (google_drive_bulk_download e links out (launch c0))))
        = map fix_google_drive_url (file_lines_of body)
    \<and> log_entries (events (snd (google_drive_bulk_download e links out (launch c0))))
        = (lit ''INFO'', lit ''Started downloading process'')
          # concat (map (item_log e (length (file_lines_of body)))
                      (enumerate1 (file_lines_of body)))
          @ [(lit ''INFO'', lit ''Finished downloading process'')]
    \<and> length (filter (\<lambda>entry. fst entry = lit ''ERROR'')
          (log_entries (events (snd (google_drive_bulk_download e links out (launch c0))))))
        = length (filter (item_failed e) (enumerate1 (file_lines_of body)))
    \<and> length (filter (\<lambda>entry. snd entry = lit ''Finished downloading process'')
          (log_entries (events (snd (google_drive_bulk_download e links out (launch c0))))))
        = 1
    \<and> (\<forall>item\<in>set (enumerate1 (file_lines_of body)). \<forall>err.
          (download_result e (fst item) (fix_google_drive_url (snd item)) = MissingSchema err
             \<longrightarrow> (lit ''ERROR'', lit ''Invalid URL format: '' @ [39]
                                 @ fix_google_drive_url (snd item) @ [39])
                 \<in> set (log_entries (events (snd (google_drive_bulk_download e links out
                          (launch c0))))))
        \<and> (download_result e (fst item) (fix_google_drive_url (snd item)) = RequestException err
             \<longrightarrow> (lit ''ERROR'', lit ''Network error while downloading '' @ [39]
                                 @ fix_google_drive_url (snd item) @ [39] @ lit '': '' @ err)
                 \<in> set (log_entries (events (snd (google_drive_bulk_download e links out
                          (launch c0))))))
        \<and> (download_result e (fst item) (fix_google_drive_url (snd item)) = OtherException err
             \<longrightarrow> (lit ''ERROR'', lit ''Unexpected error while downloading '' @ [39]
                                 @ fix_google_drive_url (snd item) @ [39] @ lit '': '' @ err)
                 \<in> set (log_entries (events (snd (google_drive_bulk_download e links out
                          (launch c0)))))))"
proof -
  let ?run = "google_drive_bulk_download e links out (launch c0)"
  let ?items = "enumerate1 (file_lines_of body)"
  let ?n = "length (file_lines_of body)"
  note log = run_loop_log [OF assms]
  have ret: "fst ?run = Returned" by (simp add: run_loop [OF assms])
  have dl: "downloads (events (snd ?run)) = map fix_google_drive_url (file_lines_of body)"
    by (simp add: run_loop [OF assms] downloads_append downloads_items fix_strip_items)
  have errs: "length (filter (\<lambda>entry. fst entry = lit ''ERROR'') (log_entries (events (snd ?run))))
                = length (filter (item_failed e) ?items)"
    by (simp add: log errors_of_items info_not_error)
  have fin: "length (filter (\<lambda>entry. snd entry = lit ''Finished downloading process'')
                (log_entries (events (snd ?run)))) = 1"
    by (simp add: log finished_not_in_items) (simp add: lit_def)
  have msgs: "outcome_entry (fix_google_drive_url (snd item))
                (download_result e (fst item) (fix_google_drive_url (snd item)))
              \<in> set (log_entries (events (snd ?run)))"
    if "item \<in> set ?items" for item
    using item_log_in_items [OF that outcome_in_item_log, of e ?n] by (simp add: log)
  have each: "\<forall>item\<in>set ?items. \<forall>err.
          (download_result e (fst item) (fix_google_drive_url (snd item)) = MissingSchema err
             \<longrightarrow> (lit ''ERROR'', lit ''Invalid URL format: '' @ [39]
                                 @ fix_google_drive_url (snd item) @ [39])
                 \<in> set (log_entries (events (snd ?run))))
        \<and> (download_result e (fst item) (fix_google_drive_url (snd item)) = RequestException err
             \<longrightarrow> (lit ''ERROR'', lit ''Network error while downloading '' @ [39]
                                 @ fix_google_drive_url (snd item) @ [39] @ lit '': '' @ err)
                 \<in> set (log_entries (events (snd ?run))))
        \<and> (download_result e (fst item) (fix_google_drive_url (snd item)) = OtherException err
             \<longrightarrow> (lit ''ERROR'', lit ''Unexpected error while downloading '' @ [39]
                                 @ fix_google_drive_url (snd item) @ [39] @ lit '': '' @ err)
                 \<in> set (log_entries (events (snd ?run))))"
  proof (intro ballI allI conjI impI)
    fix item err
    assume "item \<in> set ?items"
      and "download_result e (fst item) (fix_google_drive_url (snd item)) = MissingSchema err"
    then show "(lit ''ERROR'', lit ''Invalid URL format: '' @ [39]
                 @ fix_google_drive_url (snd item) @ [39]) \<in> set (log_entries (events (snd ?run)))"
      using msgs [of item] by (simp add: outcome_entry_def)
  next
    fix item err
    assume "item \<in> set ?items"
      and "download_result e (fst item) (fix_google_drive_url (snd item)) = RequestException err"
    then show "(lit ''ERROR'', lit ''Network error while downloading '' @ [39]
                 @ fix_google_drive_url (snd item) @ [39] @ lit '': '' @ err)
               \<in> set (log_entries (events (snd ?run)))"
      using msgs [of item] by (simp add: outcome_entry_def)
  next
    fix item err
    assume "item \<in> set ?items"
      and "download_result e (fst item) (fix_google_drive_url (snd item)) = OtherException err"
    then show "(lit ''ERROR'', lit ''Unexpected error while downloading '' @ [39]
                 @ fix_google_drive_url (snd item) @ [39] @ lit '': '' @ err)
               \<in> set (log_entries (events (snd ?run)))"
      using msgs [of item] by (simp add: outcome_entry_def)
  qed
  show ?thesis using ret dl log errs fin each by blast
qed

theorem item_failures_logged_loop_continues_witness:
  "reaches_read example_env (lit ''/home'') (lit ''/data/links.txt'') (lit ''/out'')
   \<and> read_result example_env
         (links_opened example_env (lit ''/home'') (lit ''/data/links.txt'') (lit ''/out''))
       = ReadText example_text
   \<and> file_lines_of example_text \<noteq> []
   \<and> downloads (events (snd (google_drive_bulk_download example_env (lit ''/data/links.txt'')
         (lit ''/out'') (launch (lit ''/home'')))))
       = [lit ''https://drive.google.com/uc?id=A'', lit ''ftp//x'', lit ''http://e.com/z'']
   \<and> length (filter (\<lambda>entry. fst entry = lit ''ERROR'')
         (log_entries (events (snd (google_drive_bulk_download example_env
            (lit ''/data/links.txt'') (lit ''/out'') (launch (lit ''/home'')))))))
       = 2
   \<and> length (filter (\<lambda>entry. snd entry = lit ''Finished downloading process'')
         (log_entries (events (snd (google_drive_bulk_download example_env
            (lit ''/data/links.txt'') (lit ''/out'') (launch (lit ''/home'')))))))
       = 1
   \<and> (lit ''ERROR'', lit ''Invalid URL format: '' @ [39] @ lit ''ftp//x'' @ [39])
       \<in> set (log_entries (events (snd (google_drive_bulk_download example_env
            (lit ''/data/links.txt'') (lit ''/out'') (launch (lit ''/home''))))))
   \<and> (lit ''ERROR'', lit ''Network error while downloading '' @ [39] @ lit ''http://e.com/z''
                      @ [39] @ lit '': '' @ lit ''timed out'')
       \<in> set (log_entries (events (snd (google_drive_bulk_download example_env
            (lit ''/data/links.txt'') (lit ''/out'') (launch (lit ''/home''))))))"
proof -
  let ?log = "log_entries (events (snd (google_drive_bulk_download example_env
            (lit ''/data/links.txt'') (lit ''/out'') (launch (lit ''/home'')))))"
  have h3: "file_lines_of example_text \<noteq> []" by (simp add: example_file_lines)
  note T = item_failures_logged_loop_continues [OF example_reaches_read example_read h3]
  have fx: "fix_google_drive_url (lit ''ftp//x'') = lit ''ftp//x''"
    "fix_google_drive_url (lit ''http://e.com/z'') = lit ''http://e.com/z''"
    "fix_google_drive_url (lit ''https://drive.google.com/file/d/A/view'')
       = lit ''https://drive.google.com/uc?id=A''"
    by (simp_all add: fix_google_drive_url_def lit_def)
  have r2: "download_result example_env 2 (lit ''ftp//x'') = MissingSchema (lit ''no scheme'')"
    and r3: "download_result example_env 3 (lit ''http://e.com/z'')
               = RequestException (lit ''timed out'')"
    by (simp_all add: example_env_def)
  have dl: "downloads (events (snd (google_drive_bulk_download example_env
              (lit ''/data/links.txt'') (lit ''/out'') (launch (lit ''/home'')))))
            = [lit ''https://drive.google.com/uc?id=A'', lit ''ftp//x'', lit ''http://e.com/z'']"
    using T by (simp add: example_urls)
  have "length (filter (\<lambda>entry. fst entry = lit ''ERROR'') ?log)
          = length (filter (item_failed example_env) (enumerate1 (file_lines_of example_text)))"
    using T by blast
  then have errs: "length (filter (\<lambda>entry. fst entry = lit ''ERROR'') ?log) = 2"
    by (simp add: example_items item_failed_def fx example_env_def)
  have fin: "length (filter (\<lambda>entry. snd entry = lit ''Finished downloading process'') ?log) = 1"
    using T by blast
  have each: "\<forall>item\<in>set (enumerate1 (file_lines_of example_text)). \<forall>err.
          (download_result example_env (fst item) (fix_google_drive_url (snd item))
             = MissingSchema err
             \<longrightarrow> (lit ''ERROR'', lit ''Invalid URL format: '' @ [39]
                                 @ fix_google_drive_url (snd item) @ [39]) \<in> set ?log)
        \<and> (download_result example_env (fst item) (fix_google_drive_url (snd item))
             = RequestException err
             \<longrightarrow> (lit ''ERROR'', lit ''Network error while downloading '' @ [39]
                                 @ fix_google_drive_url (snd item) @ [39] @ lit '': '' @ err)
                 \<in> set ?log)"
    using T by blast
  have m2: "(lit ''ERROR'', lit ''Invalid URL format: '' @ [39] @ lit ''ftp//x'' @ [39])
              \<in> set ?log"
    using each [rule_format, of "(2, lit ''ftp//x'')" "lit ''no scheme''"]
    by (simp add: example_items fx r2)
  have m3: "(lit ''ERROR'', lit ''Network error while downloading '' @ [39]
              @ lit ''http://e.com/z'' @ [39] @ lit '': '' @ lit ''timed out'') \<in> set ?log"
    using each [rule_format, of "(3, lit ''http://e.com/z'')" "lit ''timed out''"]
    by (simp add: example_items fx r3)
  show ?thesis
    using example_reaches_read example_read h3 dl errs fin m2 m3 by blast
qed

section \<open>Runs that stop before the loop\<close>



text \<open>
  Claim C7. When making the output directory raises an \<open>OSError\<close>, or entering it does,
  the run returns with one log entry, an ERROR with the path and the error's text, without
  reading the links file and without a download.
\<close>

theorem output_directory_failure_aborts:
  assumes "reaches_output_setup e c0 links"
    and "mkdir_result e (output_dir e c0 out) = Some err
         \<or> (mkdir_result e (output_dir e c0 out) = None
            \<and> chdir_result e (output_dir e c0 out) = Some err)"
  shows "fst (google_drive_bulk_download e links out (launch c0)) = Returned
    \<and> log_entries (events (snd (google_drive_bulk_download e links out (launch c0))))
        = [(lit ''ERROR'', lit ''Failed to set output directory '' @ [39] @ out @ [39]
                           @ lit '': '' @ err)]
    \<and> downloads (events (snd (google_drive_bulk_download e links out (launch c0)))) = []
    \<and> reads (events (snd (google_drive_bulk_download e links out (launch c0)))) = []"
  using assms(2)
proof
  assume "mkdir_result e (output_dir e c0 out) = Some err"
  then show ?thesis by (simp add: run_mkdir_failed [OF assms(1)])
next
  assume "mkdir_result e (output_dir e c0 out) = None
          \<and> chdir_result e (output_dir e c0 out) = Some err"
  then show ?thesis by (simp add: run_chdir_failed [OF assms(1)])
qed

theorem output_directory_failure_aborts_witness:
  "reaches_output_setup example_env (lit ''/home'') (lit ''/data/links.txt'')
   \<and> mkdir_result example_env (output_dir example_env (lit ''/home'') (lit ''/readonly/out''))
       = Some (lit ''Read-only file system'')
   \<and> log_entries (events (snd (google_drive_bulk_download example_env (lit ''/data/links.txt'')
         (lit ''/readonly/out'') (launch (lit ''/home'')))))
       = [(lit ''ERROR'', lit ''Failed to set output directory '' @ [39] @ lit ''/readonly/out''
                          @ [39] @ lit '': '' @ lit ''Read-only file system'')]
   \<and> downloads (events (snd (google_drive_bulk_download example_env (lit ''/data/links.txt'')
         (lit ''/readonly/out'') (launch (lit ''/home''))))) = []
   \<and> reads (events (snd (google_drive_bulk_download example_env (lit ''/data/links.txt'')
         (lit ''/readonly/out'') (launch (lit ''/home''))))) = []"
proof -
  have h1: "reaches_output_setup example_env (lit ''/home'') (lit ''/data/links.txt'')"
    by (simp add: example_defs)
  have h2: "mkdir_result example_env
              (output_dir example_env (lit ''/home'') (lit ''/readonly/out''))
            = Some (lit ''Read-only file system'')"
    by (simp add: example_defs)
  show ?thesis
    using output_directory_failure_aborts [OF h1 disjI1, OF h2] h1 h2 by simp
qed

text \<open>
  Claim C6. When every line of the links file is blank after trimming (an empty file has
  no line at all), the run returns with one log entry, the WARNING, and no download; the
  messages that open and close the loop are not in the log.
\<close>

theorem blank_links_file_warns:
  assumes "reaches_read e c0 links out"
    and "read_result e (links_opened e c0 links out) = ReadText text"
    and "\<forall>line\<in>set (readlines (universal_newlines text)). strip line = []"
  shows "fst (google_drive_bulk_download e links out (launch c0)) = Returned
    \<and> log_entries (events (snd (google_drive_bulk_download e links out (launch c0))))
        = [(lit ''WARNING'', lit ''No valid URLs found in the file!'')]
    \<and> downloads (events (snd (google_drive_bulk_download e links out (launch c0)))) = []
    \<and> (lit ''INFO'', lit ''Started downloading process'')
        \<notin> set (log_entries (events (snd (google_drive_bulk_download e links out (launch c0)))))
    \<and> (lit ''INFO'', lit ''Finished downloading process'')
        \<notin> set (log_entries (events (snd (google_drive_bulk_download e links out (launch c0)))))"
  by (simp add: run_empty [OF assms(1,2) blank_file_lines [OF assms(3)]] lit_def)

theorem blank_links_file_warns_witness:
  "reaches_read example_env (lit ''/home'') (lit ''/data/blank.txt'') (lit ''/out'')
   \<and> read_result example_env
         (links_opened example_env (lit ''/home'') (lit ''/data/blank.txt'') (lit ''/out''))
       = ReadText (lit ''  '' @ [10, 9, 13, 10])
   \<and> list_all (\<lambda>line. strip line = [])
         (readlines (universal_newlines (lit ''  '' @ [10, 9, 13, 10])))
   \<and> log_entries (events (snd (google_drive_bulk_download example_env (lit ''/data/blank.txt'')
         (lit ''/out'') (launch (lit ''/home'')))))
       = [(lit ''WARNING'', lit ''No valid URLs found in the file!'')]
   \<and> downloads (events (snd (google_drive_bulk_download example_env (lit ''/data/blank.txt'')
         (lit ''/out'') (launch (lit ''/home''))))) = []"
proof -
  have h1: "reaches_read example_env (lit ''/home'') (lit ''/data/blank.txt'') (lit ''/out'')"
    by (simp add: example_defs)
  have h2: "read_result example_env
         (links_opened example_env (lit ''/home'') (lit ''/data/blank.txt'') (lit ''/out''))
       = ReadText (lit ''  '' @ [10, 9, 13, 10])"
    by (simp add: example_defs)
  have h3: "\<forall>line\<in>set (readlines (universal_newlines (lit ''  '' @ [10, 9, 13, 10]))).
              strip line = []"
    by (simp add: lit_def strip_def isspace_def)
  have h3': "list_all (\<lambda>line. strip line = [])
         (readlines (universal_newlines (lit ''  '' @ [10, 9, 13, 10])))"
    using h3 by (simp add: list_all_iff)
  show ?thesis
    using blank_links_file_warns [OF h1 h2 h3] h1 h2 h3' by simp
qed

section \<open>The working directory of the validation\<close>

text \<open>
  Claim C10. The first thing a run does is to change into the application's directory, the
  extraction directory of a frozen build or else the script's directory, an absolute path.
  When that succeeds, the next event is the check of the links-file path, a relative one
  joined to the application's directory; the directory the process was launched in has no
  influence on the run.
\<close>

theorem validation_in_application_directory:
  assumes "isabs e (application_path e)"
  shows "application_path e = (if frozen e then meipass e else script_dir e)
    \<and> take 1 (events (snd (google_drive_bulk_download e links out (launch c0))))
        = [Chdir (application_path e)]
    \<and> (chdir_result e (application_path e) = None \<longrightarrow>
         take 2 (events (snd (google_drive_bulk_download e links out (launch c0))))
           = [Chdir (application_path e),
              IsFile (if isabs e links then links else join e (application_path e) links)]
         \<and> google_drive_bulk_download e links out (launch c0)
           = google_drive_bulk_download e links out (launch c1))"
proof -
  have app: "app_dir e c0 = application_path e"
    using assms by (simp add: app_dir_def resolve_in_def)
  have chk: "links_checked e c0 links
               = (if isabs e links then links else join e (application_path e) links)"
    by (simp add: links_checked_def resolve_in_def app)
  have one: "take 1 (events (snd (google_drive_bulk_download e links out (launch c0))))
               = [Chdir (application_path e)]"
    using run_starts_with_chdir [of e links out c0] by (simp add: app)
  have two: "take 2 (events (snd (google_drive_bulk_download e links out (launch c0))))
               = [Chdir (application_path e),
                  IsFile (if isabs e links then links else join e (application_path e) links)]"
    if ok: "chdir_result e (application_path e) = None"
    using run_checks_links_next [of e c0 links out] ok by (simp add: app chk reaches_validation_def)
  show ?thesis
    using one two run_after_first_chdir [OF assms, of links out c0 c1]
    by (simp add: application_path_def)
qed

theorem validation_in_application_directory_witness:
  "isabs example_env (application_path example_env)
   \<and> chdir_result example_env (application_path example_env) = None
   \<and> take 2 (events (snd (google_drive_bulk_download example_env (lit ''links.txt'')
         (lit ''/out'') (launch (lit ''/home'')))))
       = [Chdir (lit ''/app''), IsFile (lit ''/app/links.txt'')]
   \<and> google_drive_bulk_download example_env (lit ''links.txt'') (lit ''/out'')
         (launch (lit ''/home''))
       = google_drive_bulk_download example_env (lit ''links.txt'') (lit ''/out'')
         (launch (lit ''/tmp''))"
proof -
  have h1: "isabs example_env (application_path example_env)"
    by (simp add: example_defs)
  have h2: "chdir_result example_env (application_path example_env) = None"
    by (simp add: example_defs)
  have app: "application_path example_env = lit ''/app''"
    by (simp add: example_env_def application_path_def)
  have rel: "\<not> isabs example_env (lit ''links.txt'')"
    by (simp add: example_env_def lit_def)
  have j: "join example_env (lit ''/app'') (lit ''links.txt'') = lit ''/app/links.txt''"
    by (simp add: example_env_def lit_def)
  have "take 2 (events (snd (google_drive_bulk_download example_env (lit ''links.txt'')
            (lit ''/out'') (launch (lit ''/home'')))))
          = [Chdir (application_path example_env),
             IsFile (if isabs example_env (lit ''links.txt'') then lit ''links.txt''
                     else join example_env (application_path example_env) (lit ''links.txt''))]
        \<and> google_drive_bulk_download example_env (lit ''links.txt'') (lit ''/out'')
            (launch (lit ''/home''))
          = google_drive_bulk_download example_env (lit ''links.txt'') (lit ''/out'')
            (launch (lit ''/tmp''))"
    using h2 validation_in_application_directory
      [OF h1, of "lit ''links.txt''" "lit ''/out''" "lit ''/home''" "lit ''/tmp''"]
    by blast
  then have a: "take 2 (events (snd (google_drive_bulk_download example_env (lit ''links.txt'')
            (lit ''/out'') (launch (lit ''/home'')))))
          = [Chdir (lit ''/app''), IsFile (lit ''/app/links.txt'')]"
    and b: "google_drive_bulk_download example_env (lit ''links.txt'') (lit ''/out'')
            (launch (lit ''/home''))
          = google_drive_bulk_download example_env (lit ''links.txt'') (lit ''/out'')
            (launch (lit ''/tmp''))"
    by (auto simp: app rel j)
  show ?thesis using h1 h2 a b by blast
qed

end
